theory Spec2Isabelle
  imports Complex_Main "HOL-Library.AList"
begin

section \<open>The mesh chat server of \<^verbatim>\<open>server.py\<close>\<close>

text \<open>
  A shallow embedding of \<^verbatim>\<open>BluetoothMeshChatServer\<close>. Every method becomes a function
  from the node's state to an outcome and the state afterwards, so that a mutation made
  before an exception is raised stays visible. The readings of \<^verbatim>\<open>time.time()\<close> and
  \<^verbatim>\<open>uuid.uuid4()\<close> are inputs of the operation that takes them. Python dictionaries are
  association lists in insertion order; a \<^verbatim>\<open>Set[str]\<close> is the list of its members in
  the order in which the interpreter iterates over them; time stamps are real numbers.
\<close>

subsection \<open>Data model\<close>

datatype MessageType = TEXT | SYSTEM | ROUTE_UPDATE | PEER_DISCOVERY | ACK

record Message =
  m_id :: string
  sender_id :: string
  recipient_id :: "string option"
  message_type :: MessageType
  content :: string
  timestamp :: real
  ttl :: int
  route :: "string list"

record Peer =
  p_id :: string
  name :: string
  address :: string
  last_seen :: real
  is_online :: bool
  neighbors :: "string list"

datatype py_error = KeyError | ValueError | TypeError

text \<open>
  The two \<^verbatim>\<open>logger.info\<close> lines that mark a simulated forward (line 197) and a local
  delivery (line 211), each with the reference of the message and the value the message
  object has at that moment.
\<close>

datatype event =
  Forwarding (ev_ref: nat) (ev_hop: string) (ev_msg: Message)
| Received (ev_ref: nat) (ev_msg: Message)

type_synonym candidates = "(string \<times> int) list"

text \<open>
  Message objects are shared between the message store and the queue and are mutated in
  place by the processor, so they live in \<open>heap\<close> and are referred to by their index.
\<close>

record server =
  server_id :: string
  server_name :: string
  peers :: "(string \<times> Peer) list"
  messages :: "(string \<times> nat) list"
  routing_table :: "(string \<times> candidates) list"
  message_queue :: "nat list"
  running :: bool
  heap :: "Message list"
  trace :: "event list"

text \<open>Truth value of an \<^verbatim>\<open>Optional[str]\<close>: \<^verbatim>\<open>None\<close> and the empty string are false.\<close>

fun truthy :: "string option \<Rightarrow> bool" where
  "truthy None = False"
| "truthy (Some x) = (x \<noteq> [])"

text \<open>In-place assignment to fields of the peer object stored under a key.\<close>

definition upd_peer :: "string \<Rightarrow> (Peer \<Rightarrow> Peer) \<Rightarrow> (string \<times> Peer) list \<Rightarrow> (string \<times> Peer) list" where
  "upd_peer k f ps = map (\<lambda>(k', q). if k' = k then (k', f q) else (k', q)) ps"

subsection \<open>Construction\<close>

definition init :: "string option \<Rightarrow> string \<Rightarrow> string \<Rightarrow> real \<Rightarrow> server" where
  "init sid uuid sname now =
     (let sid' = (case sid of None \<Rightarrow> uuid | Some x \<Rightarrow> if x \<noteq> [] then x else uuid) in
      \<lparr>server_id = sid', server_name = sname,
       peers = [(sid', \<lparr>p_id = sid', name = sname, address = ''localhost'',
                        last_seen = now, is_online = True, neighbors = []\<rparr>)],
       messages = [], routing_table = [], message_queue = [], running = False,
       heap = [], trace = []\<rparr>)"

subsection \<open>Routing table\<close>

text \<open>\<^verbatim>\<open>min(items, key=lambda x: x[1])\<close>: the first item of least cost.\<close>

fun min_item :: "string \<times> int \<Rightarrow> candidates \<Rightarrow> string \<times> int" where
  "min_item b [] = b"
| "min_item b (x # xs) = min_item (if snd x < snd b then x else b) xs"

definition get_next_hop :: "server \<Rightarrow> string \<Rightarrow> py_error + string option" where
  "get_next_hop s destination =
     (case map_of (routing_table s) destination of
        None \<Rightarrow> Inr None
      | Some cands \<Rightarrow>
          (case cands of
             [] \<Rightarrow> Inl ValueError
           | c # cs \<Rightarrow> Inr (Some (fst (min_item c cs)))))"

text \<open>Lines 242-244: every known peer but the node itself gets an empty candidate map.\<close>

fun init_table :: "string \<Rightarrow> (string \<times> Peer) list \<Rightarrow> (string \<times> candidates) list \<Rightarrow> (string \<times> candidates) list" where
  "init_table sid [] rt = rt"
| "init_table sid ((peer_id, p) # ps) rt =
     init_table sid ps (if peer_id \<noteq> sid then AList.update peer_id [] rt else rt)"

text \<open>Lines 247-249: the online direct neighbours get cost 1.\<close>

fun direct_loop :: "(string \<times> Peer) list \<Rightarrow> string list \<Rightarrow> (string \<times> candidates) list
    \<Rightarrow> py_error option \<times> (string \<times> candidates) list" where
  "direct_loop ps [] rt = (None, rt)"
| "direct_loop ps (neighbor_id # ns) rt =
     (case map_of ps neighbor_id of
        None \<Rightarrow> (Some KeyError, rt)
      | Some p \<Rightarrow>
          if is_online p then
            (case map_of rt neighbor_id of
               None \<Rightarrow> (Some KeyError, rt)
             | Some cands \<Rightarrow>
                 direct_loop ps ns (AList.update neighbor_id (AList.update neighbor_id 1 cands) rt))
          else direct_loop ps ns rt)"

text \<open>
  Lines 255-264. The pair of \<^verbatim>\<open>min_cost\<close> and \<^verbatim>\<open>best_neighbor\<close> is \<open>None\<close> while they
  are still \<^verbatim>\<open>float('inf')\<close> and \<^verbatim>\<open>None\<close>; the two are only ever assigned together.
\<close>

fun relay_loop :: "(string \<times> Peer) list \<Rightarrow> string list \<Rightarrow> (int \<times> string) option
    \<Rightarrow> py_error + (int \<times> string) option" where
  "relay_loop ps [] best = Inr best"
| "relay_loop ps (neighbor_id # ns) best =
     (case map_of ps neighbor_id of
        None \<Rightarrow> Inl KeyError
      | Some p \<Rightarrow>
          if is_online p then
            (let cost = 2 in
             if (case best of None \<Rightarrow> True | Some (min_cost, b) \<Rightarrow> cost < min_cost)
             then relay_loop ps ns (Some (cost, neighbor_id))
             else relay_loop ps ns best)
          else relay_loop ps ns best)"

text \<open>Lines 252-267, over the peers still to be visited.\<close>

fun relay_all :: "string \<Rightarrow> (string \<times> Peer) list \<Rightarrow> string list \<Rightarrow> (string \<times> Peer) list
    \<Rightarrow> (string \<times> candidates) list \<Rightarrow> py_error option \<times> (string \<times> candidates) list" where
  "relay_all sid ps nbrs [] rt = (None, rt)"
| "relay_all sid ps nbrs ((peer_id, p) # rest) rt =
     (if peer_id \<noteq> sid \<and> peer_id \<notin> set nbrs then
        (case relay_loop ps nbrs None of
           Inl e \<Rightarrow> (Some e, rt)
         | Inr None \<Rightarrow> relay_all sid ps nbrs rest rt
         | Inr (Some (min_cost, best_neighbor)) \<Rightarrow>
             if best_neighbor \<noteq> [] then
               (case map_of rt peer_id of
                  None \<Rightarrow> (Some KeyError, rt)
                | Some cands \<Rightarrow>
                    relay_all sid ps nbrs rest
                      (AList.update peer_id (AList.update best_neighbor min_cost cands) rt))
             else relay_all sid ps nbrs rest rt)
      else relay_all sid ps nbrs rest rt)"

definition update_routing_table :: "server \<Rightarrow> py_error option \<times> server" where
  "update_routing_table s =
     (let rt1 = init_table (server_id s) (peers s) (routing_table s) in
      case map_of (peers s) (server_id s) of
        None \<Rightarrow> (Some KeyError, s\<lparr>routing_table := rt1\<rparr>)
      | Some self \<Rightarrow>
          (case direct_loop (peers s) (neighbors self) rt1 of
             (Some e, rt2) \<Rightarrow> (Some e, s\<lparr>routing_table := rt2\<rparr>)
           | (None, rt2) \<Rightarrow>
               (case relay_all (server_id s) (peers s) (neighbors self) (peers s) rt2 of
                  (e, rt3) \<Rightarrow> (e, s\<lparr>routing_table := rt3\<rparr>))))"

subsection \<open>Routing a message\<close>

text \<open>
  \<^verbatim>\<open>_forward_message\<close>: nothing is transmitted; the node's id is appended to the route
  unless the route already holds it.
\<close>

definition forward_message :: "nat \<Rightarrow> string \<Rightarrow> server \<Rightarrow> py_error option \<times> server" where
  "forward_message r next_hop s =
     (let m = heap s ! r;
          s1 = s\<lparr>trace := trace s @ [Forwarding r next_hop m]\<rparr>
      in if server_id s \<notin> set (route m)
         then (None, s1\<lparr>heap := (heap s1)[r := m\<lparr>route := route m @ [server_id s]\<rparr>]\<rparr>)
         else (None, s1))"

fun broadcast_loop :: "nat \<Rightarrow> string list \<Rightarrow> server \<Rightarrow> py_error option \<times> server" where
  "broadcast_loop r [] s = (None, s)"
| "broadcast_loop r (peer_id # ns) s =
     (case map_of (peers s) peer_id of
        None \<Rightarrow> (Some KeyError, s)
      | Some p \<Rightarrow>
          if is_online p then
            (case forward_message r peer_id s of
               (Some e, s1) \<Rightarrow> (Some e, s1)
             | (None, s1) \<Rightarrow> broadcast_loop r ns s1)
          else broadcast_loop r ns s)"

definition broadcast_to_neighbors :: "nat \<Rightarrow> server \<Rightarrow> py_error option \<times> server" where
  "broadcast_to_neighbors r s =
     (case map_of (peers s) (server_id s) of
        None \<Rightarrow> (Some KeyError, s)
      | Some self \<Rightarrow> broadcast_loop r (neighbors self) s)"

text \<open>
  \<^verbatim>\<open>_handle_incoming_message\<close>: the acknowledgment is a new message object; it is handed
  to \<^verbatim>\<open>_forward_message\<close> when the sender has a next hop and is otherwise let go.
\<close>

definition handle_incoming_message :: "nat \<Rightarrow> real \<Rightarrow> string \<Rightarrow> server \<Rightarrow> py_error option \<times> server" where
  "handle_incoming_message r now uuid s =
     (let m = heap s ! r;
          ack_message = \<lparr>m_id = uuid, sender_id = server_id s, recipient_id = Some (sender_id m),
                         message_type = ACK, content = ''ACK:'' @ m_id m, timestamp = now,
                         ttl = 10, route = [server_id s]\<rparr>;
          a = length (heap s);
          s1 = s\<lparr>trace := trace s @ [Received r m], heap := heap s @ [ack_message]\<rparr>
      in case get_next_hop s1 (sender_id m) of
           Inl e \<Rightarrow> (Some e, s1)
         | Inr next_hop \<Rightarrow>
             if truthy next_hop then forward_message a (the next_hop) s1 else (None, s1))"

definition route_message :: "nat \<Rightarrow> real \<Rightarrow> string \<Rightarrow> server \<Rightarrow> py_error option \<times> server" where
  "route_message r now uuid s =
     (let m = heap s ! r in
      if ttl m \<le> 0 then (None, s)
      else
        (let s1 = s\<lparr>heap := (heap s)[r := m\<lparr>ttl := ttl m - 1\<rparr>]\<rparr> in
         case recipient_id m of
           None \<Rightarrow> broadcast_to_neighbors r s1
         | Some rcp \<Rightarrow>
             if rcp = server_id s1 then handle_incoming_message r now uuid s1
             else
               (case get_next_hop s1 rcp of
                  Inl e \<Rightarrow> (Some e, s1)
                | Inr next_hop \<Rightarrow>
                    if truthy next_hop then forward_message r (the next_hop) s1
                    else (None, s1))))"

subsection \<open>The facade\<close>

text \<open>
  \<^verbatim>\<open>json.dumps\<close> of the list of \<^verbatim>\<open>asdict(peer)\<close>: \<^verbatim>\<open>asdict\<close> keeps the \<^verbatim>\<open>neighbors\<close>
  of a peer as a \<^verbatim>\<open>set\<close>, which the JSON encoder rejects with a \<^verbatim>\<open>TypeError\<close>, so
  only the empty list of peers has an encoding.
\<close>

definition json_dumps_peers :: "Peer list \<Rightarrow> py_error + string" where
  "json_dumps_peers ps =
     (if ps = [] then Inr (''{'' @ [CHR 0x22] @ ''peers'' @ [CHR 0x22] @ '': []}'')
      else Inl TypeError)"

definition broadcast_peer_discovery :: "real \<Rightarrow> string \<Rightarrow> server \<Rightarrow> py_error option \<times> server" where
  "broadcast_peer_discovery now uuid s =
     (case json_dumps_peers (map snd (peers s)) of
        Inl e \<Rightarrow> (Some e, s)
      | Inr c \<Rightarrow>
          (let discovery_message =
                 \<lparr>m_id = uuid, sender_id = server_id s, recipient_id = None,
                  message_type = PEER_DISCOVERY, content = c, timestamp = now,
                  ttl = 10, route = [server_id s]\<rparr>
           in (None, s\<lparr>heap := heap s @ [discovery_message],
                        message_queue := message_queue s @ [length (heap s)]\<rparr>)))"

definition register_peer :: "string \<Rightarrow> string \<Rightarrow> string \<Rightarrow> real \<Rightarrow> string \<Rightarrow> server
    \<Rightarrow> (py_error + bool) \<times> server" where
  "register_peer peer_id peer_name addr now uuid s =
     (let s1 =
        (if peer_id \<in> fst ` set (peers s) then
           s\<lparr>peers := upd_peer peer_id
                (\<lambda>p. p\<lparr>name := peer_name, address := addr, last_seen := now, is_online := True\<rparr>)
                (peers s)\<rparr>
         else
           s\<lparr>peers := peers s @
                [(peer_id, \<lparr>p_id = peer_id, name = peer_name, address = addr, last_seen = now,
                             is_online = True, neighbors = []\<rparr>)]\<rparr>)
      in case broadcast_peer_discovery now uuid s1 of
           (Some e, s2) \<Rightarrow> (Inl e, s2)
         | (None, s2) \<Rightarrow> (Inr True, s2))"

definition unregister_peer :: "string \<Rightarrow> real \<Rightarrow> server \<Rightarrow> (py_error + bool) \<times> server" where
  "unregister_peer peer_id now s =
     (if peer_id \<in> fst ` set (peers s) then
        (let s1 = s\<lparr>peers := upd_peer peer_id (\<lambda>p. p\<lparr>is_online := False, last_seen := now\<rparr>)
                                (peers s)\<rparr>
         in case update_routing_table s1 of
              (Some e, s2) \<Rightarrow> (Inl e, s2)
            | (None, s2) \<Rightarrow> (Inr True, s2))
      else (Inr False, s))"

text \<open>
  \<^verbatim>\<open>send_message\<close> and \<^verbatim>\<open>broadcast_message\<close> differ in the recipient only, which is
  \<^verbatim>\<open>None\<close> for a broadcast.
\<close>

definition enqueue_text :: "string \<Rightarrow> string option \<Rightarrow> string \<Rightarrow> real \<Rightarrow> string \<Rightarrow> server
    \<Rightarrow> string \<times> server" where
  "enqueue_text sender rcp c now message_id s =
     (let message = \<lparr>m_id = message_id, sender_id = sender, recipient_id = rcp,
                     message_type = TEXT, content = c, timestamp = now, ttl = 10,
                     route = [sender]\<rparr>;
          r = length (heap s)
      in (message_id,
          s\<lparr>heap := heap s @ [message],
            messages := AList.update message_id r (messages s),
            message_queue := message_queue s @ [r]\<rparr>))"

definition send_message :: "string \<Rightarrow> string \<Rightarrow> string \<Rightarrow> real \<Rightarrow> string \<Rightarrow> server \<Rightarrow> string \<times> server" where
  "send_message sender rcp c now message_id s = enqueue_text sender (Some rcp) c now message_id s"

definition broadcast_message :: "string \<Rightarrow> string \<Rightarrow> real \<Rightarrow> string \<Rightarrow> server \<Rightarrow> string \<times> server" where
  "broadcast_message sender c now message_id s = enqueue_text sender None c now message_id s"

definition message_count :: "server \<Rightarrow> nat" where
  "message_count s = length (messages s)"

definition start :: "server \<Rightarrow> server" where
  "start s = s\<lparr>running := True\<rparr>"

definition stop :: "server \<Rightarrow> server" where
  "stop s = s\<lparr>running := False\<rparr>"

subsection \<open>The background loops\<close>

text \<open>
  One turn of \<^verbatim>\<open>_message_processor\<close>: with an empty queue the wait times out and nothing
  happens; otherwise the oldest message is taken and routed, and an exception is caught
  and logged, so only the state is kept.
\<close>

definition processor_step :: "real \<Rightarrow> string \<Rightarrow> server \<Rightarrow> server" where
  "processor_step now uuid s =
     (case message_queue s of
        [] \<Rightarrow> s
      | r # q \<Rightarrow> snd (route_message r now uuid (s\<lparr>message_queue := q\<rparr>)))"

text \<open>One sweep of \<^verbatim>\<open>_peer_monitor\<close> over the items of the peer registry.\<close>

fun monitor_loop :: "real \<Rightarrow> (string \<times> Peer) list \<Rightarrow> server \<Rightarrow> py_error option \<times> server" where
  "monitor_loop current_time [] s = (None, s)"
| "monitor_loop current_time ((peer_id, peer) # rest) s =
     (if peer_id \<noteq> server_id s \<and> is_online peer then
        (if current_time - last_seen peer > 30 then
           (case update_routing_table
                   (s\<lparr>peers := upd_peer peer_id (\<lambda>p. p\<lparr>is_online := False\<rparr>) (peers s)\<rparr>) of
              (Some e, s1) \<Rightarrow> (Some e, s1)
            | (None, s1) \<Rightarrow> monitor_loop current_time rest s1)
         else monitor_loop current_time rest s)
      else monitor_loop current_time rest s)"

definition peer_monitor_sweep :: "real \<Rightarrow> server \<Rightarrow> py_error option \<times> server" where
  "peer_monitor_sweep current_time s = monitor_loop current_time (peers s) s"

subsection \<open>Reachable states\<close>

text \<open>
  The calls of the facade and the turns of the three loops, each with the clock reading
  and the fresh identifier it draws. A turn of a loop that began while the node was
  running may end after \<^verbatim>\<open>stop\<close>, so the turns are not tied to the running flag.
\<close>

datatype action =
  Register string string string real string
| Unregister string real
| Send string string string real string
| Broadcast string string real string
| Status
| Start
| Stop
| Processor real string
| Monitor real
| Updater

fun exec :: "action \<Rightarrow> server \<Rightarrow> server" where
  "exec (Register i n a now u) s = snd (register_peer i n a now u s)"
| "exec (Unregister i now) s = snd (unregister_peer i now s)"
| "exec (Send f t c now u) s = snd (send_message f t c now u s)"
| "exec (Broadcast f c now u) s = snd (broadcast_message f c now u s)"
| "exec Status s = s"
| "exec Start s = start s"
| "exec Stop s = stop s"
| "exec (Processor now u) s = processor_step now u s"
| "exec (Monitor now) s = snd (peer_monitor_sweep now s)"
| "exec Updater s = snd (update_routing_table s)"

inductive reachable :: "server \<Rightarrow> bool" where
  reachable_init: "reachable (init sid uuid sname now)"
| reachable_exec: "reachable s \<Longrightarrow> reachable (exec a s)"

subsection \<open>Notions used in the statements\<close>

text \<open>Whether a peer id is registered and flagged online.\<close>

definition online_in :: "(string \<times> Peer) list \<Rightarrow> string \<Rightarrow> bool" where
  "online_in ps k = (case map_of ps k of None \<Rightarrow> False | Some p \<Rightarrow> is_online p)"

definition first_online :: "(string \<times> Peer) list \<Rightarrow> string list \<Rightarrow> string option" where
  "first_online ps ns = find (online_in ps) ns"

text \<open>The neighbour set of the node's own peer record.\<close>

definition local_neighbors :: "server \<Rightarrow> string list" where
  "local_neighbors s =
     (case map_of (peers s) (server_id s) of None \<Rightarrow> [] | Some self \<Rightarrow> neighbors self)"

definition first_online_neighbor :: "server \<Rightarrow> string option" where
  "first_online_neighbor s = first_online (peers s) (local_neighbors s)"

text \<open>
  The lookups \<^verbatim>\<open>self.peers[...]\<close> of the recomputation find their keys: the node has its own
  peer record and every neighbour of the node is a registered peer other than the node.
\<close>

definition registered_neighbors :: "server \<Rightarrow> bool" where
  "registered_neighbors s =
     (server_id s \<in> fst ` set (peers s) \<and>
      list_all (\<lambda>n. n \<in> fst ` set (peers s) \<and> n \<noteq> server_id s) (local_neighbors s))"

text \<open>The candidate map that one recomputation leaves for a registered peer \<open>k\<close>.\<close>

definition entry_of :: "server \<Rightarrow> string \<Rightarrow> candidates" where
  "entry_of s k =
     (if k \<in> set (local_neighbors s) then (if online_in (peers s) k then [(k, 1)] else [])
      else (case first_online_neighbor s of
              None \<Rightarrow> []
            | Some b \<Rightarrow> if b \<noteq> [] then [(b, 2)] else []))"

text \<open>
  Whether the recomputation finds a next hop for \<open>k\<close>: a direct neighbour must be online
  itself, any other peer needs an online neighbour of the node with a non-empty id.
\<close>

definition has_candidate :: "server \<Rightarrow> string \<Rightarrow> bool" where
  "has_candidate s k =
     (if k \<in> set (local_neighbors s) then online_in (peers s) k
      else (case first_online_neighbor s of None \<Rightarrow> False | Some b \<Rightarrow> b \<noteq> []))"

text \<open>The part of the event trace written between two states.\<close>

definition new_events :: "server \<Rightarrow> server \<Rightarrow> event list" where
  "new_events s s' = drop (length (trace s)) (trace s')"

text \<open>The message after \<^verbatim>\<open>message.ttl -= 1\<close>.\<close>

definition decremented :: "Message \<Rightarrow> Message" where
  "decremented m = m\<lparr>ttl := ttl m - 1\<rparr>"

text \<open>The acknowledgment that \<^verbatim>\<open>_handle_incoming_message\<close> builds for a message.\<close>

definition ack_for :: "server \<Rightarrow> Message \<Rightarrow> real \<Rightarrow> string \<Rightarrow> Message" where
  "ack_for s m now uuid =
     \<lparr>m_id = uuid, sender_id = server_id s, recipient_id = Some (sender_id m),
      message_type = ACK, content = ''ACK:'' @ m_id m, timestamp = now,
      ttl = 10, route = [server_id s]\<rparr>"

text \<open>Operations that touch nothing but message objects and the event trace.\<close>

definition only_heap_trace :: "server \<Rightarrow> server \<Rightarrow> bool" where
  "only_heap_trace s s' =
     (server_id s' = server_id s \<and> server_name s' = server_name s \<and> peers s' = peers s \<and>
      messages s' = messages s \<and> routing_table s' = routing_table s \<and>
      message_queue s' = message_queue s \<and> running s' = running s)"

text \<open>
  The peers that a sweep of the monitor at time \<open>t\<close> finds timed out, and the registry it
  leaves behind.
\<close>

definition timed_out :: "server \<Rightarrow> real \<Rightarrow> string \<times> Peer \<Rightarrow> bool" where
  "timed_out s t kp = (fst kp \<noteq> server_id s \<and> is_online (snd kp) \<and> t - last_seen (snd kp) > 30)"

definition swept :: "server \<Rightarrow> real \<Rightarrow> (string \<times> Peer) list" where
  "swept s t =
     map (\<lambda>kp. if timed_out s t kp then (fst kp, (snd kp)\<lparr>is_online := False\<rparr>) else kp) (peers s)"

text \<open>
  A history of the node: the operations carried out since construction, oldest first, and
  the message ids that the calls of \<^verbatim>\<open>send_message\<close> and \<^verbatim>\<open>broadcast_message\<close> among them
  drew.
\<close>

definition run :: "action list \<Rightarrow> server \<Rightarrow> server" where
  "run acts s = foldl (\<lambda>s' a. exec a s') s acts"

fun sent_id :: "action \<Rightarrow> string option" where
  "sent_id (Send f t c now u) = Some u"
| "sent_id (Broadcast f c now u) = Some u"
| "sent_id (Register i n a now u) = None"
| "sent_id (Unregister i now) = None"
| "sent_id Status = None"
| "sent_id Start = None"
| "sent_id Stop = None"
| "sent_id (Processor now u) = None"
| "sent_id (Monitor now) = None"
| "sent_id Updater = None"

text \<open>What holds of the topology in every state the node can get into.\<close>

definition no_links :: "server \<Rightarrow> bool" where
  "no_links s =
     (server_id s \<in> fst ` set (peers s) \<and>
      list_all (\<lambda>kp. neighbors (snd kp) = []) (peers s) \<and>
      list_all (\<lambda>kc. snd kc = []) (routing_table s))"

subsection \<open>Example states\<close>

text \<open>A node with id \<open>S\<close>, constructed at time 0.\<close>

definition node0 :: server where
  "node0 = init (Some ''S'') ''u0'' ''MeshServer'' 0"

text \<open>
  The node after \<^verbatim>\<open>register_peer("peer1", "Alice", "192.168.1.101")\<close> and one turn of the
  route updater.
\<close>

definition node1 :: server where
  "node1 = exec Updater (exec (Register ''peer1'' ''Alice'' ''192.168.1.101'' 0 ''u1'') node0)"

text \<open>The node holding a message that went from \<open>S\<close> to \<open>A\<close> and came back.\<close>

definition node_fwd :: server where
  "node_fwd =
     node0\<lparr>heap := [\<lparr>m_id = ''m1'', sender_id = ''S'', recipient_id = Some ''B'',
                      message_type = TEXT, content = ''hi'', timestamp = 0, ttl = 9,
                      route = [''S'', ''A'']\<rparr>]\<rparr>"

text \<open>
  A node whose own record lists the neighbour \<open>A\<close>, with \<open>A\<close> online and a further peer
  \<open>B\<close> offline.
\<close>

definition mesh3 :: server where
  "mesh3 =
     \<lparr>server_id = ''S'', server_name = ''MeshServer'',
      peers = [(''S'', \<lparr>p_id = ''S'', name = ''MeshServer'', address = ''localhost'',
                        last_seen = 0, is_online = True, neighbors = [''A'']\<rparr>),
               (''A'', \<lparr>p_id = ''A'', name = ''Alice'', address = ''a1'',
                        last_seen = 0, is_online = True, neighbors = []\<rparr>),
               (''B'', \<lparr>p_id = ''B'', name = ''Bob'', address = ''b1'',
                        last_seen = 0, is_online = False, neighbors = []\<rparr>)],
      messages = [], routing_table = [], message_queue = [], running = True,
      heap = [], trace = []\<rparr>"

text \<open>The node after \<open>A\<close> sent it a text message, before and after the processor's turn.\<close>

definition node_sent :: server where
  "node_sent = exec (Send ''A'' ''S'' ''hi'' 1 ''u2'') node0"

definition node_acked :: server where
  "node_acked = exec (Processor 2 ''u3'') node_sent"

text \<open>The node with a queued message of kind \<^verbatim>\<open>SYSTEM\<close> from \<open>A\<close>, addressed to the node.\<close>

definition node_sys :: server where
  "node_sys =
     node0\<lparr>heap := [\<lparr>m_id = ''m1'', sender_id = ''A'', recipient_id = Some ''S'',
                      message_type = SYSTEM, content = ''sync'', timestamp = 0, ttl = 10,
                      route = [''A'']\<rparr>],
           message_queue := [0]\<rparr>"

text \<open>The node with a queued message whose TTL is used up.\<close>

definition node_expired :: server where
  "node_expired =
     node0\<lparr>heap := [\<lparr>m_id = ''m1'', sender_id = ''A'', recipient_id = Some ''S'',
                      message_type = TEXT, content = ''hi'', timestamp = 0, ttl = 0,
                      route = [''A'']\<rparr>],
           message_queue := [0]\<rparr>"

text \<open>The node after \<open>peer1\<close> registered at time 0.\<close>

definition node_reg :: server where
  "node_reg = exec (Register ''peer1'' ''Alice'' ''192.168.1.101'' 0 ''u1'') node0"

lemmas ops_defs =
  init_def register_peer_def unregister_peer_def broadcast_peer_discovery_def
  json_dumps_peers_def upd_peer_def update_routing_table_def get_next_hop_def
  enqueue_text_def send_message_def broadcast_message_def processor_step_def
  route_message_def handle_incoming_message_def forward_message_def
  broadcast_to_neighbors_def peer_monitor_sweep_def start_def stop_def

section \<open>Properties\<close>

subsection \<open>Next-hop lookup\<close>

text \<open>
  C1. The lookup is claimed never to raise, also for a destination whose entry is an empty
  candidate map. After \<open>peer1\<close> has registered and the route updater has run once, the
  table holds exactly the empty candidate map for \<open>peer1\<close>, and the lookup of \<open>peer1\<close>
  raises \<^verbatim>\<open>ValueError\<close>: \<^verbatim>\<open>min\<close> is applied to an empty sequence.
\<close>

theorem get_next_hop_empty_raises:
  "routing_table node1 = [(''peer1'', [])] \<and> get_next_hop node1 ''peer1'' = Inl ValueError"
  by (simp add: node1_def node0_def ops_defs Let_def)

subsection \<open>The simulated forward\<close>

text \<open>
  C9, as stated: the node's id is appended exactly when it is not the last entry of the
  route. The route \<open>[S, A]\<close> does not end in the node's id \<open>S\<close>, and the forward leaves it
  as it is.
\<close>

theorem forward_message_not_last_cex:
  "last (route (heap node_fwd ! 0)) \<noteq> server_id node_fwd \<and>
   route (heap (snd (forward_message 0 ''B'' node_fwd)) ! 0) = route (heap node_fwd ! 0)"
  by (simp add: node_fwd_def node0_def init_def forward_message_def Let_def)

text \<open>
  C9, amended: the node's id is appended to the route of the forwarded message exactly when
  it occurs nowhere in the route; a route that holds the id at any position is left as
  it is.
\<close>

theorem forward_message_route:
  "r < length (heap s) \<Longrightarrow>
   route (heap (snd (forward_message r next_hop s)) ! r) =
     (if server_id s \<in> set (route (heap s ! r)) then route (heap s ! r)
      else route (heap s ! r) @ [server_id s])"
  by (simp add: forward_message_def Let_def)

theorem forward_message_route_witness:
  "0 < length (heap node_fwd) \<and>
   route (heap (snd (forward_message 0 ''B'' node_fwd)) ! 0) = [''S'', ''A'']"
  using forward_message_route [of 0 node_fwd "''B''"]
  by (simp add: node_fwd_def node0_def init_def Let_def)

subsection \<open>What routing a message leaves alone\<close>

text \<open>
  Routing works on message objects and writes log lines; the registry, the store, the table,
  the queue and the flags are the same before and after.
\<close>

lemma only_heap_trace_refl: "only_heap_trace s s"
  by (simp add: only_heap_trace_def)

lemma only_heap_trace_trans:
  "only_heap_trace s s1 \<Longrightarrow> only_heap_trace s1 s2 \<Longrightarrow> only_heap_trace s s2"
  by (simp add: only_heap_trace_def)

lemma forward_message_frame: "only_heap_trace s (snd (forward_message r h s))"
  by (simp add: forward_message_def only_heap_trace_def Let_def)

lemma forward_message_ok: "fst (forward_message r h s) = None"
  by (simp add: forward_message_def Let_def)

lemma broadcast_loop_frame: "only_heap_trace s (snd (broadcast_loop r ns s))"
proof (induction ns arbitrary: s)
  case Nil
  show ?case by (simp add: only_heap_trace_refl)
next
  case (Cons n ns)
  show ?case
  proof (cases "map_of (peers s) n")
    case None
    then show ?thesis by (simp add: only_heap_trace_refl)
  next
    case (Some p)
    show ?thesis
    proof (cases "is_online p")
      case False
      with Some show ?thesis by (simp add: Cons.IH)
    next
      case True
      obtain e s1 where f: "forward_message r n s = (e, s1)" by (cases "forward_message r n s")
      then have 1: "only_heap_trace s s1" using forward_message_frame [of s r n] by simp
      from f have e: "e = None" using forward_message_ok [of r n s] by simp
      have "only_heap_trace s1 (snd (broadcast_loop r ns s1))" by (rule Cons.IH)
      with 1 have "only_heap_trace s (snd (broadcast_loop r ns s1))" by (rule only_heap_trace_trans)
      with Some True f e show ?thesis by simp
    qed
  qed
qed

lemma broadcast_to_neighbors_frame: "only_heap_trace s (snd (broadcast_to_neighbors r s))"
  by (simp add: broadcast_to_neighbors_def broadcast_loop_frame only_heap_trace_refl split: option.splits)

lemma handle_incoming_message_frame: "only_heap_trace s (snd (handle_incoming_message r now uuid s))"
proof -
  let ?s1 = "s\<lparr>trace := trace s @ [Received r (heap s ! r)],
               heap := heap s @ [ack_for s (heap s ! r) now uuid]\<rparr>"
  have 1: "only_heap_trace s ?s1" by (simp add: only_heap_trace_def)
  have 2: "only_heap_trace s (snd (forward_message a h ?s1))" for a h
    using 1 forward_message_frame by (rule only_heap_trace_trans)
  show ?thesis
    using 1 2 by (simp add: handle_incoming_message_def ack_for_def Let_def split: sum.splits)
qed

lemma route_message_frame: "only_heap_trace s (snd (route_message r now uuid s))"
proof -
  let ?s1 = "s\<lparr>heap := (heap s)[r := (heap s ! r)\<lparr>ttl := ttl (heap s ! r) - 1\<rparr>]\<rparr>"
  have 1: "only_heap_trace s ?s1" by (simp add: only_heap_trace_def)
  have 2: "only_heap_trace s (snd (forward_message a h ?s1))" for a h
    using 1 forward_message_frame by (rule only_heap_trace_trans)
  have 3: "only_heap_trace s (snd (broadcast_to_neighbors r ?s1))"
    using 1 broadcast_to_neighbors_frame by (rule only_heap_trace_trans)
  have 4: "only_heap_trace s (snd (handle_incoming_message r now uuid ?s1))"
    using 1 handle_incoming_message_frame by (rule only_heap_trace_trans)
  show ?thesis
    using 1 2 3 4
    by (simp add: route_message_def Let_def only_heap_trace_refl split: option.splits sum.splits)
qed

subsection \<open>A topology without links\<close>

text \<open>
  No operation adds to a neighbour set, so every state the node gets into has empty
  neighbour sets and a table of empty candidate maps.
\<close>

lemma upd_peer_keys: "map fst (upd_peer k f ps) = map fst ps"
  by (induction ps) (auto simp: upd_peer_def)

lemma upd_peer_key_set: "fst ` set (upd_peer k f ps) = fst ` set ps"
  using upd_peer_keys [of k f ps] by (metis set_map)

lemma upd_peer_no_neighbors:
  "(\<And>p. neighbors (f p) = neighbors p) \<Longrightarrow>
   list_all (\<lambda>kp. neighbors (snd kp) = []) ps \<Longrightarrow>
   list_all (\<lambda>kp. neighbors (snd kp) = []) (upd_peer k f ps)"
  by (induction ps) (auto simp: upd_peer_def)

lemma update_all_empty:
  "list_all (\<lambda>kc. snd kc = []) rt \<Longrightarrow> list_all (\<lambda>kc. snd kc = []) (AList.update k [] rt)"
  by (induction rt) auto

lemma init_table_all_empty:
  "list_all (\<lambda>kc. snd kc = []) rt \<Longrightarrow> list_all (\<lambda>kc. snd kc = []) (init_table sid ps rt)"
  by (induction sid ps rt rule: init_table.induct) (auto simp: update_all_empty)

lemma relay_all_no_neighbors: "relay_all sid ps [] rest rt = (None, rt)"
  by (induction rest) auto

lemma map_of_self_no_neighbors:
  "list_all (\<lambda>kp. neighbors (snd kp) = []) ps \<Longrightarrow> map_of ps k = Some p \<Longrightarrow> neighbors p = []"
  by (induction ps) (auto split: if_splits)

lemma key_map_of: "k \<in> fst ` set ps \<Longrightarrow> \<exists>v. map_of ps k = Some v"
  by (cases "map_of ps k") (simp_all add: map_of_eq_None_iff)

lemma update_routing_table_no_links:
  assumes "no_links s"
  shows "update_routing_table s =
           (None, s\<lparr>routing_table := init_table (server_id s) (peers s) (routing_table s)\<rparr>)"
proof -
  from assms obtain self where self: "map_of (peers s) (server_id s) = Some self"
    using key_map_of [of "server_id s" "peers s"] by (auto simp: no_links_def)
  with assms have "neighbors self = []"
    by (auto simp: no_links_def dest: map_of_self_no_neighbors)
  with self show ?thesis
    by (simp add: update_routing_table_def relay_all_no_neighbors)
qed

lemma no_links_update_routing_table:
  assumes "no_links s"
  shows "no_links (snd (update_routing_table s))"
  using assms unfolding update_routing_table_no_links [OF assms]
  by (simp add: no_links_def init_table_all_empty)

lemma no_links_only_heap_trace: "only_heap_trace s s' \<Longrightarrow> no_links s \<Longrightarrow> no_links s'"
  by (simp add: only_heap_trace_def no_links_def)

lemma no_links_upd_peer:
  "(\<And>p. neighbors (f p) = neighbors p) \<Longrightarrow> no_links s \<Longrightarrow>
   no_links (s\<lparr>peers := upd_peer k f (peers s)\<rparr>)"
  by (simp add: no_links_def upd_peer_key_set upd_peer_no_neighbors)

lemma register_peer_state:
  "snd (register_peer i n a now u s) =
     snd (broadcast_peer_discovery now u
       (if i \<in> fst ` set (peers s) then
          s\<lparr>peers := upd_peer i
               (\<lambda>p. p\<lparr>name := n, address := a, last_seen := now, is_online := True\<rparr>)
               (peers s)\<rparr>
        else
          s\<lparr>peers := peers s @
               [(i, \<lparr>p_id = i, name = n, address = a, last_seen = now,
                      is_online = True, neighbors = []\<rparr>)]\<rparr>))"
  by (simp add: register_peer_def Let_def split: prod.splits option.splits)

lemma unregister_peer_state:
  "snd (unregister_peer i now s) =
     (if i \<in> fst ` set (peers s) then
        snd (update_routing_table
          (s\<lparr>peers := upd_peer i (\<lambda>p. p\<lparr>is_online := False, last_seen := now\<rparr>) (peers s)\<rparr>))
      else s)"
  by (simp add: unregister_peer_def Let_def split: prod.splits option.splits)

lemma no_links_register: "no_links s \<Longrightarrow> no_links (snd (register_peer i n a now u s))"
proof -
  assume a: "no_links s"
  have 1: "no_links (s\<lparr>peers := upd_peer i
             (\<lambda>p. p\<lparr>name := n, address := a, last_seen := now, is_online := True\<rparr>) (peers s)\<rparr>)"
    using a by (intro no_links_upd_peer) simp_all
  have 2: "no_links (s\<lparr>peers := peers s @
             [(i, \<lparr>p_id = i, name = n, address = a, last_seen = now,
                    is_online = True, neighbors = []\<rparr>)]\<rparr>)"
    using a by (simp add: no_links_def)
  have 3: "no_links t \<Longrightarrow> no_links (snd (broadcast_peer_discovery now u t))" for t
    by (simp add: broadcast_peer_discovery_def no_links_def Let_def split: sum.splits)
  show ?thesis
    using 1 2 3 by (simp add: register_peer_state)
qed

lemma no_links_unregister: "no_links s \<Longrightarrow> no_links (snd (unregister_peer i now s))"
proof -
  assume a: "no_links s"
  have "no_links (s\<lparr>peers := upd_peer i (\<lambda>p. p\<lparr>is_online := False, last_seen := now\<rparr>) (peers s)\<rparr>)"
    using a by (intro no_links_upd_peer) simp_all
  then have "no_links (snd (update_routing_table
      (s\<lparr>peers := upd_peer i (\<lambda>p. p\<lparr>is_online := False, last_seen := now\<rparr>) (peers s)\<rparr>)))"
    by (rule no_links_update_routing_table)
  with a show ?thesis
    by (simp add: unregister_peer_state)
qed

lemma no_links_enqueue: "no_links s \<Longrightarrow> no_links (snd (enqueue_text f t c now u s))"
  by (simp add: enqueue_text_def no_links_def Let_def)

lemma no_links_processor: "no_links s \<Longrightarrow> no_links (processor_step now u s)"
proof (cases "message_queue s")
  case Nil
  assume "no_links s"
  with Nil show ?thesis by (simp add: processor_step_def)
next
  case (Cons r q)
  assume "no_links s"
  then have "no_links (s\<lparr>message_queue := q\<rparr>)" by (simp add: no_links_def)
  with route_message_frame have "no_links (snd (route_message r now u (s\<lparr>message_queue := q\<rparr>)))"
    by (rule no_links_only_heap_trace)
  with Cons show ?thesis by (simp add: processor_step_def)
qed

lemma no_links_monitor_loop: "no_links s \<Longrightarrow> no_links (snd (monitor_loop t ps s))"
proof (induction ps arbitrary: s)
  case Nil
  then show ?case by simp
next
  case (Cons x ps)
  obtain k p where x: "x = (k, p)" by (cases x)
  let ?s1 = "s\<lparr>peers := upd_peer k (\<lambda>p. p\<lparr>is_online := False\<rparr>) (peers s)\<rparr>"
  have "no_links ?s1" using Cons.prems by (intro no_links_upd_peer) simp_all
  then have u: "update_routing_table ?s1 =
      (None, ?s1\<lparr>routing_table := init_table (server_id ?s1) (peers ?s1) (routing_table ?s1)\<rparr>)"
    and n: "no_links (snd (update_routing_table ?s1))"
    by (rule update_routing_table_no_links, rule no_links_update_routing_table)
  from n have "no_links (snd (monitor_loop t ps (snd (update_routing_table ?s1))))"
    by (rule Cons.IH)
  moreover have "no_links (snd (monitor_loop t ps s))" using Cons.prems by (rule Cons.IH)
  ultimately show ?case
    unfolding x by (simp add: u)
qed

lemma no_links_exec: "no_links s \<Longrightarrow> no_links (exec a s)"
proof (cases a)
  case (Register i n ad now u)
  assume "no_links s"
  with Register show ?thesis by (simp add: no_links_register)
next
  case (Unregister i now)
  assume "no_links s"
  with Unregister show ?thesis by (simp add: no_links_unregister)
next
  case (Send f t c now u)
  assume "no_links s"
  with Send show ?thesis by (simp add: send_message_def no_links_enqueue)
next
  case (Broadcast f c now u)
  assume "no_links s"
  with Broadcast show ?thesis by (simp add: broadcast_message_def no_links_enqueue)
next
  case Status
  assume "no_links s"
  with Status show ?thesis by simp
next
  case Start
  assume "no_links s"
  with Start show ?thesis by (simp add: start_def no_links_def)
next
  case Stop
  assume "no_links s"
  with Stop show ?thesis by (simp add: stop_def no_links_def)
next
  case (Processor now u)
  assume "no_links s"
  with Processor show ?thesis by (simp add: no_links_processor)
next
  case (Monitor now)
  assume "no_links s"
  with Monitor show ?thesis by (simp add: peer_monitor_sweep_def no_links_monitor_loop)
next
  case Updater
  assume "no_links s"
  with Updater show ?thesis by (simp add: no_links_update_routing_table)
qed

lemma no_links_init: "no_links (init sid uuid sname now)"
  by (simp add: init_def no_links_def Let_def)

lemma reachable_no_links: "reachable s \<Longrightarrow> no_links s"
  by (induction rule: reachable.induct) (simp_all add: no_links_init no_links_exec)

lemma broadcast_to_neighbors_no_links: "no_links s \<Longrightarrow> broadcast_to_neighbors r s = (None, s)"
proof -
  assume a: "no_links s"
  then obtain self where self: "map_of (peers s) (server_id s) = Some self"
    using key_map_of [of "server_id s" "peers s"] by (auto simp: no_links_def)
  with a have "neighbors self = []"
    by (auto simp: no_links_def dest: map_of_self_no_neighbors)
  with self show ?thesis by (simp add: broadcast_to_neighbors_def)
qed

lemma reachable_node_reg: "reachable node_reg"
  unfolding node_reg_def node0_def by (intro reachable.intros)

lemma reachable_node1: "reachable node1"
  unfolding node1_def node0_def by (intro reachable.intros)

text \<open>
  C10. In every state reachable from construction by the calls of the facade and the turns
  of the background loops, every peer's neighbour set is empty, the node's own included;
  so a broadcast is forwarded to no peer and leaves the state as it is, and a recomputation
  of the routing table completes and yields only empty candidate maps.
\<close>

theorem reachable_no_neighbors:
  "reachable s \<Longrightarrow>
   list_all (\<lambda>kp. neighbors (snd kp) = []) (peers s) \<and>
   broadcast_to_neighbors r s = (None, s) \<and>
   fst (update_routing_table s) = None \<and>
   list_all (\<lambda>kc. snd kc = []) (routing_table (snd (update_routing_table s)))"
proof -
  assume "reachable s"
  then have n: "no_links s" by (rule reachable_no_links)
  then have "no_links (snd (update_routing_table s))" by (rule no_links_update_routing_table)
  with n show ?thesis
    by (simp add: broadcast_to_neighbors_no_links update_routing_table_no_links no_links_def)
qed

theorem reachable_no_neighbors_witness:
  "reachable node1 \<and> peers node1 \<noteq> [] \<and>
   list_all (\<lambda>kp. neighbors (snd kp) = []) (peers node1) \<and>
   broadcast_to_neighbors 0 node1 = (None, node1) \<and>
   routing_table (snd (update_routing_table node1)) = [(''peer1'', [])]"
  using reachable_no_neighbors [OF reachable_node1, of 0] reachable_node1
  by (simp add: node1_def node0_def ops_defs Let_def)

subsection \<open>Time to live\<close>

text \<open>
  What the simulated forward and the loops over it write to the trace, and that they leave
  the TTL of every message object alone.
\<close>

lemma forward_message_trace:
  "trace (snd (forward_message r h s)) = trace s @ [Forwarding r h (heap s ! r)]"
  by (simp add: forward_message_def Let_def)

lemma forward_message_length: "length (heap (snd (forward_message r h s))) = length (heap s)"
  by (simp add: forward_message_def Let_def)

lemma forward_message_ttl: "ttl (heap (snd (forward_message r h s)) ! k) = ttl (heap s ! k)"
proof (cases "k = r \<and> r < length (heap s)")
  case True
  then show ?thesis by (simp add: forward_message_def Let_def)
next
  case False
  then have "(heap s)[r := x] ! k = heap s ! k" for x
    by (cases "k = r") (auto simp: list_update_beyond)
  then show ?thesis by (simp add: forward_message_def Let_def)
qed

lemma broadcast_loop_events:
  "\<exists>evs. trace (snd (broadcast_loop r ns s)) = trace s @ evs \<and>
         list_all (\<lambda>e. ttl (ev_msg e) = ttl (heap s ! r)) evs \<and>
         ttl (heap (snd (broadcast_loop r ns s)) ! r) = ttl (heap s ! r)"
proof (induction ns arbitrary: s)
  case Nil
  show ?case by simp
next
  case (Cons n ns)
  show ?case
  proof (cases "map_of (peers s) n")
    case None
    then show ?thesis by simp
  next
    case (Some p)
    show ?thesis
    proof (cases "is_online p")
      case False
      with Some Cons.IH [of s] show ?thesis by simp
    next
      case True
      obtain e s1 where f: "forward_message r n s = (e, s1)" by (cases "forward_message r n s")
      from f have e: "e = None" using forward_message_ok [of r n s] by simp
      from f have t1: "trace s1 = trace s @ [Forwarding r n (heap s ! r)]"
        using forward_message_trace [of r n s] by simp
      from f have h1: "ttl (heap s1 ! r) = ttl (heap s ! r)"
        using forward_message_ttl [of r n s r] by simp
      from Cons.IH [of s1] obtain evs where
        evs: "trace (snd (broadcast_loop r ns s1)) = trace s1 @ evs"
             "list_all (\<lambda>e. ttl (ev_msg e) = ttl (heap s1 ! r)) evs"
             "ttl (heap (snd (broadcast_loop r ns s1)) ! r) = ttl (heap s1 ! r)"
        by blast
      have "trace (snd (broadcast_loop r (n # ns) s)) = trace s @ (Forwarding r n (heap s ! r) # evs)"
        using Some True f e evs(1) t1 by simp
      moreover have "list_all (\<lambda>e. ttl (ev_msg e) = ttl (heap s ! r)) (Forwarding r n (heap s ! r) # evs)"
        using evs(2) h1 by simp
      moreover have "ttl (heap (snd (broadcast_loop r (n # ns) s)) ! r) = ttl (heap s ! r)"
        using Some True f e evs(3) h1 by simp
      ultimately show ?thesis by blast
    qed
  qed
qed

lemma get_next_hop_cong:
  "routing_table s' = routing_table s \<Longrightarrow> get_next_hop s' d = get_next_hop s d"
  by (simp add: get_next_hop_def)

lemma handle_incoming_message_state:
  "snd (handle_incoming_message r now uuid s) =
     s\<lparr>trace := trace s @ Received r (heap s ! r) #
                  (case get_next_hop s (sender_id (heap s ! r)) of
                     Inl e \<Rightarrow> []
                   | Inr None \<Rightarrow> []
                   | Inr (Some h) \<Rightarrow>
                       if h \<noteq> [] then [Forwarding (length (heap s)) h (ack_for s (heap s ! r) now uuid)]
                       else []),
       heap := heap s @ [ack_for s (heap s ! r) now uuid]\<rparr>"
  by (simp add: handle_incoming_message_def forward_message_def ack_for_def get_next_hop_def Let_def
           split: sum.splits option.splits list.splits)

lemma route_message_expired:
  "ttl (heap s ! r) \<le> 0 \<Longrightarrow> route_message r now uuid s = (None, s)"
  by (simp add: route_message_def Let_def)

lemma route_message_events:
  assumes r: "r < length (heap s)" and pos: "0 < ttl (heap s ! r)"
  shows "\<exists>evs. trace (snd (route_message r now uuid s)) = trace s @ evs \<and>
           list_all (\<lambda>e. ev_ref e = r \<longrightarrow> ttl (ev_msg e) = ttl (heap s ! r) - 1) evs \<and>
           ttl (heap (snd (route_message r now uuid s)) ! r) = ttl (heap s ! r) - 1"
proof -
  let ?m = "heap s ! r"
  let ?s1 = "s\<lparr>heap := (heap s)[r := ?m\<lparr>ttl := ttl ?m - 1\<rparr>]\<rparr>"
  have m1: "heap ?s1 ! r = ?m\<lparr>ttl := ttl ?m - 1\<rparr>" using r by simp
  then have t1: "ttl (heap ?s1 ! r) = ttl ?m - 1" by simp
  show ?thesis
  proof (cases "recipient_id ?m")
    case None
    obtain self_opt where so: "map_of (peers s) (server_id s) = self_opt" by simp
    show ?thesis
    proof (cases self_opt)
      case None
      with so \<open>recipient_id ?m = None\<close> pos t1 show ?thesis
        by (simp add: route_message_def broadcast_to_neighbors_def Let_def)
    next
      case (Some self)
      from broadcast_loop_events [of r "neighbors self" ?s1] obtain evs where
        evs: "trace (snd (broadcast_loop r (neighbors self) ?s1)) = trace ?s1 @ evs"
             "list_all (\<lambda>e. ttl (ev_msg e) = ttl (heap ?s1 ! r)) evs"
             "ttl (heap (snd (broadcast_loop r (neighbors self) ?s1)) ! r) = ttl (heap ?s1 ! r)"
        by blast
      have res: "route_message r now uuid s = broadcast_loop r (neighbors self) ?s1"
        using Some so \<open>recipient_id ?m = None\<close> pos
        by (simp add: route_message_def broadcast_to_neighbors_def Let_def)
      have "list_all (\<lambda>e. ev_ref e = r \<longrightarrow> ttl (ev_msg e) = ttl ?m - 1) evs"
        using evs(2) unfolding t1 by (simp add: list_all_iff)
      with evs(1,3) t1 res show ?thesis by simp
    qed
  next
    case (Some rcp)
    show ?thesis
    proof (cases "rcp = server_id s")
      case True
      have res: "route_message r now uuid s = handle_incoming_message r now uuid ?s1"
        using Some True pos by (simp add: route_message_def Let_def)
      have "length (heap ?s1) \<noteq> r" using r by simp
      then show ?thesis
        unfolding res handle_incoming_message_state
        using r by (simp add: nth_append split: sum.splits option.splits)
    next
      case False
      have res: "snd (route_message r now uuid s) =
          (case get_next_hop s rcp of
             Inl e \<Rightarrow> ?s1
           | Inr None \<Rightarrow> ?s1
           | Inr (Some h) \<Rightarrow> if h \<noteq> [] then snd (forward_message r h ?s1) else ?s1)"
        using Some False pos
        by (simp add: route_message_def get_next_hop_cong [of ?s1 s] Let_def
                 split: sum.splits option.splits)
      show ?thesis
        unfolding res
        using r by (simp add: forward_message_trace forward_message_ttl split: sum.splits option.splits)
    qed
  qed
qed

text \<open>
  C4. Let the processor take the message \<open>r\<close> from the head of the queue, \<open>r\<close> being an
  allocated message object. If its TTL is at most 0, nothing happens but the removal
  from the queue: no delivery, no forward, no acknowledgment, and every message object, the
  store included, is as before. Otherwise the TTL of the message is one less afterwards,
  the trace is only extended, and every delivery or forward of this message that the turn
  logs sees the TTL already decremented.
\<close>

theorem processor_step_ttl:
  assumes "message_queue s = r # q" and "r < length (heap s)"
  shows "(ttl (heap s ! r) \<le> 0 \<longrightarrow> processor_step now uuid s = s\<lparr>message_queue := q\<rparr>) \<and>
         (0 < ttl (heap s ! r) \<longrightarrow>
            ttl (heap (processor_step now uuid s) ! r) = ttl (heap s ! r) - 1 \<and>
            take (length (trace s)) (trace (processor_step now uuid s)) = trace s \<and>
            list_all (\<lambda>e. ev_ref e = r \<longrightarrow> ttl (ev_msg e) = ttl (heap s ! r) - 1)
              (new_events s (processor_step now uuid s)))"
proof -
  let ?s0 = "s\<lparr>message_queue := q\<rparr>"
  have p: "processor_step now uuid s = snd (route_message r now uuid ?s0)"
    using assms(1) by (simp add: processor_step_def)
  have a: "ttl (heap s ! r) \<le> 0 \<longrightarrow> processor_step now uuid s = ?s0"
    unfolding p by (simp add: route_message_expired)
  have b: "ttl (heap (processor_step now uuid s) ! r) = ttl (heap s ! r) - 1 \<and>
            take (length (trace s)) (trace (processor_step now uuid s)) = trace s \<and>
            list_all (\<lambda>e. ev_ref e = r \<longrightarrow> ttl (ev_msg e) = ttl (heap s ! r) - 1)
              (new_events s (processor_step now uuid s))"
    if pos: "0 < ttl (heap s ! r)"
  proof -
    from route_message_events [of r ?s0 now uuid] assms(2) pos obtain evs where
      evs: "trace (snd (route_message r now uuid ?s0)) = trace s @ evs"
           "list_all (\<lambda>e. ev_ref e = r \<longrightarrow> ttl (ev_msg e) = ttl (heap s ! r) - 1) evs"
           "ttl (heap (snd (route_message r now uuid ?s0)) ! r) = ttl (heap s ! r) - 1"
      by auto
    then show ?thesis unfolding p by (simp add: new_events_def)
  qed
  from a b show ?thesis by blast
qed

theorem processor_step_ttl_witness:
  "processor_step 2 ''u3'' node_expired = node_expired\<lparr>message_queue := []\<rparr> \<and>
   ttl (heap node_sent ! 0) = 10 \<and>
   ttl (heap (processor_step 2 ''u3'' node_sent) ! 0) = 9 \<and>
   map (\<lambda>e. (ev_ref e, ttl (ev_msg e))) (new_events node_sent (processor_step 2 ''u3'' node_sent)) = [(0, 9)]"
  using processor_step_ttl [of node_expired 0 "[]" 2 "''u3''"]
        processor_step_ttl [of node_sent 0 "[]" 2 "''u3''"]
  by (simp add: node_expired_def node_sent_def node0_def new_events_def ops_defs Let_def)

subsection \<open>Local delivery\<close>

lemma ack_for_decremented: "ack_for s (decremented m) now uuid = ack_for s m now uuid"
  by (simp add: ack_for_def decremented_def)

text \<open>
  C5, as stated: an acknowledgment is made exactly for the kind \<^verbatim>\<open>text\<close> and is put on
  the queue. After the processor has delivered a text message to the node, the
  acknowledgment exists but the queue is empty; and the delivery of a message of kind
  \<^verbatim>\<open>SYSTEM\<close> makes an acknowledgment all the same.
\<close>

theorem ack_not_enqueued_cex:
  "message_type (heap node_sent ! 0) = TEXT \<and>
   map message_type (heap node_acked) = [TEXT, ACK] \<and>
   message_queue node_acked = [] \<and>
   map message_type (heap node_sys) = [SYSTEM] \<and>
   map message_type (heap (processor_step 2 ''u3'' node_sys)) = [SYSTEM, ACK] \<and>
   content (heap (processor_step 2 ''u3'' node_sys) ! 1) = ''ACK:m1''"
  by (simp add: node_acked_def node_sent_def node_sys_def node0_def ops_defs Let_def)

text \<open>
  C5, amended: when the processor takes a message with positive TTL whose recipient is the
  node itself, then whatever the kind of the message it builds exactly one acknowledgment,
  addressed to the sender of the message, with content \<open>ACK:\<close> followed by the id of the
  message. The acknowledgment is neither put on the queue nor recorded in the store: it is
  handed to the simulated forward at once when the routing table gives a non-empty next
  hop for the sender, and is let go otherwise.
\<close>

theorem local_delivery_ack:
  assumes q: "message_queue s = r # q" and r: "r < length (heap s)"
    and rcp: "recipient_id (heap s ! r) = Some (server_id s)" and pos: "0 < ttl (heap s ! r)"
  shows "heap (processor_step now uuid s) =
           (heap s)[r := decremented (heap s ! r)] @ [ack_for s (heap s ! r) now uuid] \<and>
         message_queue (processor_step now uuid s) = q \<and>
         messages (processor_step now uuid s) = messages s \<and>
         new_events s (processor_step now uuid s) =
           Received r (decremented (heap s ! r)) #
           (case get_next_hop s (sender_id (heap s ! r)) of
              Inl e \<Rightarrow> []
            | Inr None \<Rightarrow> []
            | Inr (Some h) \<Rightarrow>
                if h \<noteq> [] then [Forwarding (length (heap s)) h (ack_for s (heap s ! r) now uuid)]
                else [])"
proof -
  let ?s1 = "s\<lparr>message_queue := q, heap := (heap s)[r := decremented (heap s ! r)]\<rparr>"
  have p: "processor_step now uuid s = snd (handle_incoming_message r now uuid ?s1)"
    using q rcp pos by (simp add: processor_step_def route_message_def decremented_def Let_def)
  have g: "get_next_hop ?s1 d = get_next_hop s d" for d
    by (simp add: get_next_hop_def)
  have m: "heap ?s1 ! r = decremented (heap s ! r)" using r by simp
  have a: "ack_for ?s1 (decremented (heap s ! r)) now uuid = ack_for s (heap s ! r) now uuid"
    by (simp add: ack_for_def decremented_def)
  have sd: "sender_id (decremented (heap s ! r)) = sender_id (heap s ! r)"
    by (simp add: decremented_def)
  show ?thesis
    unfolding p handle_incoming_message_state m g a sd
    by (simp add: new_events_def split: sum.splits option.splits)
qed

theorem local_delivery_ack_witness:
  "heap (processor_step 2 ''u3'' node_sys) =
     [\<lparr>m_id = ''m1'', sender_id = ''A'', recipient_id = Some ''S'',
       message_type = SYSTEM, content = ''sync'', timestamp = 0, ttl = 9, route = [''A'']\<rparr>,
      \<lparr>m_id = ''u3'', sender_id = ''S'', recipient_id = Some ''A'',
       message_type = ACK, content = ''ACK:m1'', timestamp = 2, ttl = 10, route = [''S'']\<rparr>] \<and>
   message_queue (processor_step 2 ''u3'' node_sys) = [] \<and>
   messages (processor_step 2 ''u3'' node_sys) = [] \<and>
   map ev_ref (new_events node_sys (processor_step 2 ''u3'' node_sys)) = [0]"
  using local_delivery_ack [of node_sys 0 "[]" 2 "''u3''"]
  by (simp add: node_sys_def node0_def init_def get_next_hop_def ack_for_def decremented_def Let_def)

subsection \<open>The message store\<close>

text \<open>The recomputation of the table writes the table and nothing else.\<close>

lemma update_routing_table_frame:
  "snd (update_routing_table s) = s\<lparr>routing_table := routing_table (snd (update_routing_table s))\<rparr>"
  by (simp add: update_routing_table_def Let_def split: option.splits prod.splits)

lemma update_routing_table_peers: "peers (snd (update_routing_table s)) = peers s"
  by (simp add: update_routing_table_def Let_def split: option.splits prod.splits)

lemma update_routing_table_messages: "messages (snd (update_routing_table s)) = messages s"
  by (simp add: update_routing_table_def Let_def split: option.splits prod.splits)

lemma update_routing_table_server_id: "server_id (snd (update_routing_table s)) = server_id s"
  by (simp add: update_routing_table_def Let_def split: option.splits prod.splits)

lemma monitor_loop_messages: "messages (snd (monitor_loop t ps s)) = messages s"
proof (induction ps arbitrary: s)
  case Nil
  show ?case by simp
next
  case (Cons x ps)
  obtain k p where x: "x = (k, p)" by (cases x)
  let ?s1 = "s\<lparr>peers := upd_peer k (\<lambda>p. p\<lparr>is_online := False\<rparr>) (peers s)\<rparr>"
  have m1: "messages (snd (update_routing_table ?s1)) = messages s"
    by (simp add: update_routing_table_messages)
  have "messages (snd (monitor_loop t ps (snd (update_routing_table ?s1)))) = messages s"
    using Cons.IH [of "snd (update_routing_table ?s1)"] m1 by simp
  then show ?case
    unfolding x using Cons.IH [of s] m1
    by (cases "update_routing_table ?s1") (auto split: option.splits)
qed

lemma register_peer_messages: "messages (snd (register_peer i n a now u s)) = messages s"
  by (simp add: register_peer_state broadcast_peer_discovery_def Let_def split: sum.splits)

lemma unregister_peer_messages: "messages (snd (unregister_peer i now s)) = messages s"
  by (simp add: unregister_peer_state update_routing_table_messages)

lemma processor_step_messages: "messages (processor_step now u s) = messages s"
proof (cases "message_queue s")
  case Nil
  then show ?thesis by (simp add: processor_step_def)
next
  case (Cons r q)
  have "only_heap_trace (s\<lparr>message_queue := q\<rparr>) (snd (route_message r now u (s\<lparr>message_queue := q\<rparr>)))"
    by (rule route_message_frame)
  with Cons show ?thesis by (simp add: processor_step_def only_heap_trace_def)
qed

lemma exec_messages:
  "messages (exec a s) =
     (case sent_id a of None \<Rightarrow> messages s | Some u \<Rightarrow> AList.update u (length (heap s)) (messages s))"
proof (cases a)
  case (Register i n ad now u)
  then show ?thesis by (simp add: register_peer_messages)
next
  case (Unregister i now)
  then show ?thesis by (simp add: unregister_peer_messages)
next
  case (Send f t c now u)
  then show ?thesis by (simp add: send_message_def enqueue_text_def Let_def)
next
  case (Broadcast f c now u)
  then show ?thesis by (simp add: broadcast_message_def enqueue_text_def Let_def)
next
  case Status
  then show ?thesis by simp
next
  case Start
  then show ?thesis by (simp add: start_def)
next
  case Stop
  then show ?thesis by (simp add: stop_def)
next
  case (Processor now u)
  then show ?thesis by (simp add: processor_step_messages)
next
  case (Monitor now)
  then show ?thesis by (simp add: peer_monitor_sweep_def monitor_loop_messages)
next
  case Updater
  then show ?thesis by (simp add: update_routing_table_messages)
qed

lemma exec_message_keys:
  "fst ` set (messages (exec a s)) = fst ` set (messages s) \<union> set_option (sent_id a)"
  by (cases "sent_id a") (simp_all add: exec_messages dom_update)

lemma exec_messages_distinct:
  "distinct (map fst (messages s)) \<Longrightarrow> distinct (map fst (messages (exec a s)))"
  by (cases "sent_id a") (simp_all add: exec_messages distinct_update)

lemma run_snoc: "run (acts @ [a]) s = exec a (run acts s)"
  by (simp add: run_def)

lemma run_messages:
  "distinct (map fst (messages (run acts (init sid uuid sname t0)))) \<and>
   fst ` set (messages (run acts (init sid uuid sname t0))) = set (List.map_filter sent_id acts)"
proof (induction acts rule: rev_induct)
  case Nil
  show ?case by (simp add: run_def init_def Let_def List.map_filter_def)
next
  case (snoc a acts)
  then show ?case
    by (cases "sent_id a")
       (simp_all add: run_snoc exec_message_keys exec_messages_distinct List.map_filter_def)
qed

lemma heap_send:
  "heap (exec (Send f t c now u) s) =
     heap s @ [\<lparr>m_id = u, sender_id = f, recipient_id = Some t, message_type = TEXT, content = c,
                timestamp = now, ttl = 10, route = [f]\<rparr>]"
  by (simp add: send_message_def enqueue_text_def Let_def)

lemma heap_broadcast:
  "heap (exec (Broadcast f c now u) s) =
     heap s @ [\<lparr>m_id = u, sender_id = f, recipient_id = None, message_type = TEXT, content = c,
                timestamp = now, ttl = 10, route = [f]\<rparr>]"
  by (simp add: broadcast_message_def enqueue_text_def Let_def)

text \<open>
  C8, as stated: every message the system creates, the acknowledgments of the processor
  included, is recorded in the store, so that the message count counts every message ever
  created. After a text message was sent to the node and acknowledged, two messages
  exist, the store holds the first only, and the count is 1.
\<close>

theorem ack_not_stored_cex:
  "map m_id (heap node_acked) = [''u2'', ''u3''] \<and>
   message_type (heap node_acked ! 1) = ACK \<and>
   map fst (messages node_acked) = [''u2''] \<and>
   map_of (messages node_acked) ''u3'' = None \<and>
   message_count node_acked = 1"
  by (simp add: node_acked_def node_sent_def node0_def message_count_def ops_defs Let_def)

text \<open>
  C8, amended: a call of \<^verbatim>\<open>send_message\<close> or \<^verbatim>\<open>broadcast_message\<close> allocates one message
  and records it in the store under its id: the store afterwards is the store before with
  that one id bound to the new message, every other record as it was, and the count grows
  by one unless the id was already there. Every other operation, the processor's turn with
  its acknowledgments included, leaves the store and the count as they are. So over any
  history from construction the ids in the store are exactly the ids drawn by the calls of
  \<^verbatim>\<open>send_message\<close> and \<^verbatim>\<open>broadcast_message\<close>, each once, and the message count is their
  number.
\<close>

theorem message_store_append_only:
  "(case a of
      Send f t c now u \<Rightarrow>
        messages (exec a s) = AList.update u (length (heap s)) (messages s) \<and>
        heap (exec a s) =
          heap s @ [\<lparr>m_id = u, sender_id = f, recipient_id = Some t, message_type = TEXT,
                     content = c, timestamp = now, ttl = 10, route = [f]\<rparr>] \<and>
        message_count (exec a s) =
          (if u \<in> fst ` set (messages s) then message_count s else message_count s + 1)
    | Broadcast f c now u \<Rightarrow>
        messages (exec a s) = AList.update u (length (heap s)) (messages s) \<and>
        heap (exec a s) =
          heap s @ [\<lparr>m_id = u, sender_id = f, recipient_id = None, message_type = TEXT,
                     content = c, timestamp = now, ttl = 10, route = [f]\<rparr>] \<and>
        message_count (exec a s) =
          (if u \<in> fst ` set (messages s) then message_count s else message_count s + 1)
    | _ \<Rightarrow> messages (exec a s) = messages s \<and> message_count (exec a s) = message_count s) \<and>
   map_of (messages (exec a s)) k =
     (if sent_id a = Some k then Some (length (heap s)) else map_of (messages s) k) \<and>
   fst ` set (messages (exec a s)) = fst ` set (messages s) \<union> set_option (sent_id a) \<and>
   distinct (map fst (messages (run acts (init sid uuid sname t0)))) \<and>
   fst ` set (messages (run acts (init sid uuid sname t0))) = set (List.map_filter sent_id acts) \<and>
   message_count (run acts (init sid uuid sname t0)) = card (set (List.map_filter sent_id acts))"
proof -
  have len: "length (AList.update u r xs) = (if u \<in> fst ` set xs then length xs else length xs + 1)"
    for u :: string and r :: nat and xs
    by (induction xs) auto
  have 1: "(case a of
      Send f t c now u \<Rightarrow>
        messages (exec a s) = AList.update u (length (heap s)) (messages s) \<and>
        heap (exec a s) =
          heap s @ [\<lparr>m_id = u, sender_id = f, recipient_id = Some t, message_type = TEXT,
                     content = c, timestamp = now, ttl = 10, route = [f]\<rparr>] \<and>
        message_count (exec a s) =
          (if u \<in> fst ` set (messages s) then message_count s else message_count s + 1)
    | Broadcast f c now u \<Rightarrow>
        messages (exec a s) = AList.update u (length (heap s)) (messages s) \<and>
        heap (exec a s) =
          heap s @ [\<lparr>m_id = u, sender_id = f, recipient_id = None, message_type = TEXT,
                     content = c, timestamp = now, ttl = 10, route = [f]\<rparr>] \<and>
        message_count (exec a s) =
          (if u \<in> fst ` set (messages s) then message_count s else message_count s + 1)
    | _ \<Rightarrow> messages (exec a s) = messages s \<and> message_count (exec a s) = message_count s)"
    unfolding message_count_def exec_messages
    by (cases a) (simp_all add: len heap_send heap_broadcast del: exec.simps)
  have 2: "map_of (messages (exec a s)) k =
     (if sent_id a = Some k then Some (length (heap s)) else map_of (messages s) k)"
    by (cases "sent_id a") (auto simp: exec_messages update_conv')
  have 3: "message_count (run acts (init sid uuid sname t0)) = card (set (List.map_filter sent_id acts))"
    using run_messages [of acts sid uuid sname t0]
    by (metis message_count_def distinct_card length_map set_map)
  from 1 2 3 exec_message_keys [of a s] run_messages [of acts sid uuid sname t0]
  show ?thesis by blast
qed

subsection \<open>Unregistration\<close>

lemma map_of_init_table:
  "map_of (init_table sid ps rt) k =
     (if k \<in> fst ` set ps \<and> k \<noteq> sid then Some [] else map_of rt k)"
  by (induction sid ps rt rule: init_table.induct) (auto simp: update_conv')



subsection \<open>The monitor's sweep\<close>

text \<open>
  In a reachable state the keys of the registry are distinct and the recomputation does not
  raise, so the sweep visits every peer once and its effect is that of a map over the
  registry.
\<close>

lemma upd_peer_absent: "k \<notin> fst ` set ps \<Longrightarrow> upd_peer k f ps = ps"
  by (induction ps) (auto simp: upd_peer_def)

lemma upd_peer_append: "upd_peer k f (ps @ qs) = upd_peer k f ps @ upd_peer k f qs"
  by (simp add: upd_peer_def)

lemma upd_peer_at:
  "k \<notin> fst ` set pre \<Longrightarrow> k \<notin> fst ` set rest \<Longrightarrow>
   upd_peer k f (pre @ (k, p) # rest) = pre @ (k, f p) # rest"
  using upd_peer_absent [of k pre f] upd_peer_absent [of k rest f]
  by (simp add: upd_peer_def)

lemma monitor_loop_peers:
  "no_links s \<Longrightarrow>
   peers (snd (monitor_loop t ps s)) =
     foldl (\<lambda>P kp. if timed_out s t kp then upd_peer (fst kp) (\<lambda>p. p\<lparr>is_online := False\<rparr>) P else P)
       (peers s) ps"
proof (induction ps arbitrary: s)
  case Nil
  show ?case by simp
next
  case (Cons x ps)
  obtain k p where x: "x = (k, p)" by (cases x)
  let ?s1 = "s\<lparr>peers := upd_peer k (\<lambda>p. p\<lparr>is_online := False\<rparr>) (peers s)\<rparr>"
  let ?s2 = "?s1\<lparr>routing_table := init_table (server_id ?s1) (peers ?s1) (routing_table ?s1)\<rparr>"
  have n1: "no_links ?s1" using Cons.prems by (intro no_links_upd_peer) simp_all
  then have u: "update_routing_table ?s1 = (None, ?s2)"
    by (rule update_routing_table_no_links)
  have n2: "no_links ?s2" using no_links_update_routing_table [OF n1] u by simp
  have same: "timed_out ?s2 t = timed_out s t"
    by (simp add: timed_out_def fun_eq_iff)
  show ?case
  proof (cases "timed_out s t (k, p)")
    case True
    then have "monitor_loop t (x # ps) s = monitor_loop t ps ?s2"
      unfolding x using u by (simp add: timed_out_def)
    then show ?thesis
      using Cons.IH [OF n2] True unfolding same x by simp
  next
    case False
    then have "monitor_loop t (x # ps) s = monitor_loop t ps s"
      unfolding x by (auto simp: timed_out_def)
    then show ?thesis
      using Cons.IH [OF Cons.prems] False unfolding x by simp
  qed
qed

lemma sweep_fold:
  "distinct (map fst (pre @ ps)) \<Longrightarrow>
   foldl (\<lambda>P kp. if c kp then upd_peer (fst kp) f P else P) (pre @ ps) ps =
     pre @ map (\<lambda>kp. if c kp then (fst kp, f (snd kp)) else kp) ps"
proof (induction ps arbitrary: pre)
  case Nil
  show ?case by simp
next
  case (Cons x ps)
  obtain k p where x: "x = (k, p)" by (cases x)
  let ?g = "\<lambda>kp. if c kp then (fst kp, f (snd kp)) else kp"
  from Cons.prems have k: "k \<notin> fst ` set pre" "k \<notin> fst ` set ps"
    unfolding x by auto
  have d: "distinct (map fst ((pre @ [?g x]) @ ps))"
    using Cons.prems unfolding x by auto
  have step: "(if c x then upd_peer (fst x) f (pre @ x # ps) else pre @ x # ps) = (pre @ [?g x]) @ ps"
    unfolding x using upd_peer_at [OF k, of f p] by simp
  have "foldl (\<lambda>P kp. if c kp then upd_peer (fst kp) f P else P) (pre @ x # ps) (x # ps) =
        foldl (\<lambda>P kp. if c kp then upd_peer (fst kp) f P else P) ((pre @ [?g x]) @ ps) ps"
    using step by simp
  also have "\<dots> = (pre @ [?g x]) @ map ?g ps"
    using d by (rule Cons.IH)
  finally show ?case by simp
qed

lemma monitor_loop_keys: "map fst (peers (snd (monitor_loop t ps s))) = map fst (peers s)"
proof (induction ps arbitrary: s)
  case Nil
  show ?case by simp
next
  case (Cons x ps)
  obtain k p where x: "x = (k, p)" by (cases x)
  let ?s1 = "s\<lparr>peers := upd_peer k (\<lambda>p. p\<lparr>is_online := False\<rparr>) (peers s)\<rparr>"
  have m1: "map fst (peers (snd (update_routing_table ?s1))) = map fst (peers s)"
    by (simp add: update_routing_table_peers upd_peer_keys)
  have "map fst (peers (snd (monitor_loop t ps (snd (update_routing_table ?s1))))) = map fst (peers s)"
    using Cons.IH [of "snd (update_routing_table ?s1)"] m1 by simp
  then show ?case
    unfolding x using Cons.IH [of s] m1
    by (cases "update_routing_table ?s1") (auto split: option.splits)
qed

lemma processor_step_peers: "peers (processor_step now u s) = peers s"
proof (cases "message_queue s")
  case Nil
  then show ?thesis by (simp add: processor_step_def)
next
  case (Cons r q)
  have "only_heap_trace (s\<lparr>message_queue := q\<rparr>) (snd (route_message r now u (s\<lparr>message_queue := q\<rparr>)))"
    by (rule route_message_frame)
  with Cons show ?thesis by (simp add: processor_step_def only_heap_trace_def)
qed

lemma broadcast_peer_discovery_peers: "peers (snd (broadcast_peer_discovery now u s)) = peers s"
  by (simp add: broadcast_peer_discovery_def Let_def split: sum.splits)

lemma distinct_peers_exec:
  assumes d: "distinct (map fst (peers s))"
  shows "distinct (map fst (peers (exec a s)))"
proof (cases a)
  case (Register i n ad now u)
  then show ?thesis using d
    by (auto simp: register_peer_state broadcast_peer_discovery_peers upd_peer_keys)
next
  case (Unregister i now)
  then show ?thesis using d
    by (simp add: unregister_peer_state update_routing_table_peers upd_peer_keys)
next
  case (Send f t c now u)
  then show ?thesis using d by (simp add: send_message_def enqueue_text_def Let_def)
next
  case (Broadcast f c now u)
  then show ?thesis using d by (simp add: broadcast_message_def enqueue_text_def Let_def)
next
  case Status
  then show ?thesis using d by simp
next
  case Start
  then show ?thesis using d by (simp add: start_def)
next
  case Stop
  then show ?thesis using d by (simp add: stop_def)
next
  case (Processor now u)
  then show ?thesis using d by (simp add: processor_step_peers)
next
  case (Monitor now)
  then show ?thesis using d by (simp add: peer_monitor_sweep_def monitor_loop_keys)
next
  case Updater
  then show ?thesis using d by (simp add: update_routing_table_peers)
qed

lemma reachable_distinct_peers: "reachable s \<Longrightarrow> distinct (map fst (peers s))"
  by (induction rule: reachable.induct) (simp_all add: init_def Let_def distinct_peers_exec)

text \<open>
  C6, as stated: whenever the online flag of a peer is cleared, by the monitor's sweep as
  well as by unregistration, its \<^verbatim>\<open>last_seen\<close> is set to the time of that transition. The
  peer \<open>peer1\<close> registers at time 0; the sweep at time 100 clears its flag, and its
  \<^verbatim>\<open>last_seen\<close> is still 0.
\<close>

theorem offline_last_seen_cex:
  "map (\<lambda>kp. (fst kp, is_online (snd kp), last_seen (snd kp))) (peers node_reg) =
     [(''S'', True, 0), (''peer1'', True, 0)] \<and>
   map (\<lambda>kp. (fst kp, is_online (snd kp), last_seen (snd kp))) (peers (exec (Monitor 100) node_reg)) =
     [(''S'', True, 0), (''peer1'', False, 0)]"
  by (simp add: node_reg_def node0_def ops_defs Let_def)

text \<open>
  C6, amended: in every reachable state, unregistration of a registered peer clears its
  online flag and sets its \<^verbatim>\<open>last_seen\<close> to the time of the call, and touches no other
  peer; the monitor's sweep clears the flag of every peer other than the node that is online
  and was last seen more than 30 seconds before the sweep, and changes nothing else in the
  registry: the \<^verbatim>\<open>last_seen\<close> of a timed-out peer stays the time it was last registered.
\<close>

theorem offline_last_seen:
  assumes "reachable s"
  shows "(i \<in> fst ` set (peers s) \<longrightarrow>
            peers (snd (unregister_peer i now s)) =
              upd_peer i (\<lambda>p. p\<lparr>is_online := False, last_seen := now\<rparr>) (peers s)) \<and>
         peers (snd (peer_monitor_sweep t s)) = swept s t"
proof -
  from assms have n: "no_links s" and d: "distinct (map fst ([] @ peers s))"
    by (simp_all add: reachable_no_links reachable_distinct_peers)
  have "peers (snd (peer_monitor_sweep t s)) = swept s t"
    unfolding peer_monitor_sweep_def monitor_loop_peers [OF n] swept_def
    using sweep_fold [OF d, of "timed_out s t" "\<lambda>p. p\<lparr>is_online := False\<rparr>"] by simp
  then show ?thesis
    by (simp add: unregister_peer_state update_routing_table_peers)
qed

theorem offline_last_seen_witness:
  "peers (snd (unregister_peer ''peer1'' 100 node_reg)) =
     [(''S'', \<lparr>p_id = ''S'', name = ''MeshServer'', address = ''localhost'',
               last_seen = 0, is_online = True, neighbors = []\<rparr>),
      (''peer1'', \<lparr>p_id = ''peer1'', name = ''Alice'', address = ''192.168.1.101'',
                   last_seen = 100, is_online = False, neighbors = []\<rparr>)] \<and>
   peers (snd (peer_monitor_sweep 100 node_reg)) =
     [(''S'', \<lparr>p_id = ''S'', name = ''MeshServer'', address = ''localhost'',
               last_seen = 0, is_online = True, neighbors = []\<rparr>),
      (''peer1'', \<lparr>p_id = ''peer1'', name = ''Alice'', address = ''192.168.1.101'',
                   last_seen = 0, is_online = False, neighbors = []\<rparr>)]"
  using offline_last_seen [OF reachable_node_reg, of "''peer1''" 100 100]
  by (simp add: node_reg_def node0_def swept_def timed_out_def ops_defs Let_def)

subsection \<open>The recomputed table\<close>

text \<open>
  The three passes of the recomputation, each as a map from destinations to candidate maps:
  the reset of every registered peer's entry, the cost 1 for the online neighbours, and the
  cost 2 through the first online neighbour for the peers that are not neighbours.
\<close>

lemma map_of_direct_loop:
  "direct_loop ps ns rt = (None, rt') \<Longrightarrow>
     map_of rt' k =
       (if k \<in> set ns \<and> online_in ps k then map_option (AList.update k 1) (map_of rt k)
        else map_of rt k)"
proof (induction ns arbitrary: rt)
  case Nil
  then show ?case by simp
next
  case (Cons n ns)
  then show ?case
    by (auto simp: online_in_def update_conv' split: option.splits if_splits)
qed

lemma direct_loop_ok:
  "\<forall>n\<in>set ns. n \<in> fst ` set ps \<and> n \<in> fst ` set rt \<Longrightarrow> fst (direct_loop ps ns rt) = None"
proof (induction ns arbitrary: rt)
  case Nil
  then show ?case by simp
next
  case (Cons n ns)
  then show ?case
    by (auto simp: dom_update  map_of_eq_None_iff split: option.splits)
qed

lemma relay_loop_Some:
  "\<forall>n\<in>set ns. n \<in> fst ` set ps \<Longrightarrow> relay_loop ps ns (Some (2, b)) = Inr (Some (2, b))"
  by (induction ns) (auto simp: map_of_eq_None_iff split: option.splits)

lemma relay_loop_None:
  "\<forall>n\<in>set ns. n \<in> fst ` set ps \<Longrightarrow>
     relay_loop ps ns None = Inr (map_option (Pair 2) (first_online ps ns))"
  by (induction ns)
     (auto simp: first_online_def online_in_def relay_loop_Some map_of_eq_None_iff split: option.splits)

lemma map_of_Some_key: "map_of ps k = Some v \<Longrightarrow> k \<in> fst ` set ps"
  by (metis map_of_eq_None_iff option.distinct(1))

lemma relay_loop_result:
  "relay_loop ps ns best = Inr r \<Longrightarrow> \<forall>n\<in>set ns. n \<in> fst ` set ps"
  by (induction ns arbitrary: best)
     (auto simp: Let_def split: option.splits if_splits dest: map_of_Some_key)

lemma map_of_relay_all:
  "relay_all sid ps nbrs rest rt = (None, rt') \<Longrightarrow>
     map_of rt' k =
       (if k \<in> fst ` set rest \<and> k \<noteq> sid \<and> k \<notin> set nbrs then
          (case first_online ps nbrs of
             None \<Rightarrow> map_of rt k
           | Some b \<Rightarrow> if b \<noteq> [] then map_option (AList.update b 2) (map_of rt k) else map_of rt k)
        else map_of rt k)"
proof (induction rest arbitrary: rt)
  case Nil
  then show ?case by simp
next
  case (Cons x rest)
  obtain pid p where x: "x = (pid, p)" by (cases x)
  show ?case
  proof (cases "pid \<noteq> sid \<and> pid \<notin> set nbrs")
    case False
    with Cons x show ?thesis by auto
  next
    case True
    from Cons.prems True x obtain r where r: "relay_loop ps nbrs None = Inr r"
      by (auto split: sum.splits)
    then have "\<forall>n\<in>set nbrs. n \<in> fst ` set ps" by (rule relay_loop_result)
    then have r': "r = map_option (Pair 2) (first_online ps nbrs)"
      using r by (simp add: relay_loop_None)
    show ?thesis
      using Cons.prems True x r r' Cons.IH
      by (auto simp: update_conv' split: option.splits if_splits)
  qed
qed

lemma relay_all_ok:
  "\<forall>n\<in>set nbrs. n \<in> fst ` set ps \<Longrightarrow>
   \<forall>k\<in>fst ` set rest. k \<noteq> sid \<and> k \<notin> set nbrs \<longrightarrow> k \<in> fst ` set rt \<Longrightarrow>
   fst (relay_all sid ps nbrs rest rt) = None"
proof (induction rest arbitrary: rt)
  case Nil
  then show ?case by simp
next
  case (Cons x rest)
  obtain pid p where x: "x = (pid, p)" by (cases x)
  from Cons.prems(1) have r: "relay_loop ps nbrs None = Inr (map_option (Pair 2) (first_online ps nbrs))"
    by (rule relay_loop_None)
  have step: "fst (relay_all sid ps nbrs rest (AList.update a b rt)) = None" for a b
    using Cons.prems by (intro Cons.IH) (auto simp: dom_update)
  have plain: "fst (relay_all sid ps nbrs rest rt) = None"
    using Cons.prems by (intro Cons.IH) auto
  show ?case
  proof (cases "pid \<noteq> sid \<and> pid \<notin> set nbrs")
    case False
    then show ?thesis unfolding x using plain by auto
  next
    case True
    then have "pid \<in> fst ` set rt" using Cons.prems(2) unfolding x by simp
    then obtain c where c: "map_of rt pid = Some c" using key_map_of by fastforce
    show ?thesis
    proof (cases "first_online ps nbrs")
      case None
      then show ?thesis unfolding x using True r plain by simp
    next
      case (Some b)
      then show ?thesis unfolding x using True r plain step c by simp
    qed
  qed
qed

lemma direct_loop_keys:
  "direct_loop ps ns rt = (None, rt') \<Longrightarrow> k \<in> fst ` set rt \<Longrightarrow> k \<in> fst ` set rt'"
proof -
  assume a: "direct_loop ps ns rt = (None, rt')" and k: "k \<in> fst ` set rt"
  from k obtain v where "map_of rt k = Some v"
    using key_map_of by fastforce
  then have "map_of rt' k \<noteq> None"
    using map_of_direct_loop [OF a, of k] by (simp split: if_splits)
  then show ?thesis by (simp add: map_of_eq_None_iff)
qed

lemma init_table_keys:
  "k \<in> fst ` set ps \<Longrightarrow> k \<noteq> sid \<Longrightarrow> k \<in> fst ` set (init_table sid ps rt)"
proof -
  assume "k \<in> fst ` set ps" "k \<noteq> sid"
  then have "map_of (init_table sid ps rt) k = Some []" by (simp add: map_of_init_table)
  then show ?thesis by (rule map_of_Some_key)
qed

lemma update_routing_table_ok:
  assumes "registered_neighbors s"
  shows "fst (update_routing_table s) = None"
proof -
  from assms obtain self where self: "map_of (peers s) (server_id s) = Some self"
    using key_map_of [of "server_id s" "peers s"] by (auto simp: registered_neighbors_def)
  let ?rt1 = "init_table (server_id s) (peers s) (routing_table s)"
  from assms self have nb: "\<forall>n\<in>set (neighbors self). n \<in> fst ` set (peers s) \<and> n \<noteq> server_id s"
    by (simp add: registered_neighbors_def local_neighbors_def list_all_iff)
  then have "\<forall>n\<in>set (neighbors self). n \<in> fst ` set (peers s) \<and> n \<in> fst ` set ?rt1"
    by (simp add: init_table_keys)
  then have "fst (direct_loop (peers s) (neighbors self) ?rt1) = None"
    by (rule direct_loop_ok)
  then obtain rt2 where d: "direct_loop (peers s) (neighbors self) ?rt1 = (None, rt2)"
    by (cases "direct_loop (peers s) (neighbors self) ?rt1") auto
  have "fst (relay_all (server_id s) (peers s) (neighbors self) (peers s) rt2) = None"
  proof (rule relay_all_ok)
    show "\<forall>n\<in>set (neighbors self). n \<in> fst ` set (peers s)" using nb by simp
    show "\<forall>k\<in>fst ` set (peers s). k \<noteq> server_id s \<and> k \<notin> set (neighbors self) \<longrightarrow> k \<in> fst ` set rt2"
    proof (intro ballI impI)
      fix k assume "k \<in> fst ` set (peers s)" "k \<noteq> server_id s \<and> k \<notin> set (neighbors self)"
      then have "k \<in> fst ` set ?rt1" by (simp add: init_table_keys)
      with d show "k \<in> fst ` set rt2" by (rule direct_loop_keys)
    qed
  qed
  then show ?thesis
    using self d
    by (cases "relay_all (server_id s) (peers s) (neighbors self) (peers s) rt2")
       (simp add: update_routing_table_def)
qed

lemma relay_all_keys:
  assumes r: "relay_all sid ps nbrs rest rt = (None, rt')" and k: "k \<in> fst ` set rt"
  shows "k \<in> fst ` set rt'"
proof -
  from k obtain v where v: "map_of rt k = Some v"
    using key_map_of by fastforce
  have "map_of rt' k \<noteq> None"
    unfolding map_of_relay_all [OF r, of k] v
    by (simp split: option.splits)
  then show ?thesis by (simp add: map_of_eq_None_iff)
qed

lemma init_table_keeps_keys: "k \<in> fst ` set rt \<Longrightarrow> k \<in> fst ` set (init_table sid ps rt)"
proof -
  assume "k \<in> fst ` set rt"
  then obtain v where "map_of rt k = Some v" using key_map_of by fastforce
  then have "map_of (init_table sid ps rt) k \<noteq> None" by (simp add: map_of_init_table)
  then show ?thesis by (simp add: map_of_eq_None_iff)
qed

lemma update_routing_table_stages:
  assumes ok: "fst (update_routing_table s) = None"
  obtains self rt2 rt3 where
    "map_of (peers s) (server_id s) = Some self"
    "direct_loop (peers s) (neighbors self) (init_table (server_id s) (peers s) (routing_table s)) = (None, rt2)"
    "relay_all (server_id s) (peers s) (neighbors self) (peers s) rt2 = (None, rt3)"
    "routing_table (snd (update_routing_table s)) = rt3"
proof -
  let ?rt1 = "init_table (server_id s) (peers s) (routing_table s)"
  from ok obtain self where self: "map_of (peers s) (server_id s) = Some self"
    by (cases "map_of (peers s) (server_id s)") (simp_all add: update_routing_table_def)
  obtain e2 rt2 where d0: "direct_loop (peers s) (neighbors self) ?rt1 = (e2, rt2)"
    by (cases "direct_loop (peers s) (neighbors self) ?rt1")
  have e2: "e2 = None"
  proof (cases e2)
    case None
    then show ?thesis .
  next
    case (Some e)
    with ok self d0 show ?thesis by (simp add: update_routing_table_def)
  qed
  obtain e3 rt3 where r0: "relay_all (server_id s) (peers s) (neighbors self) (peers s) rt2 = (e3, rt3)"
    by (cases "relay_all (server_id s) (peers s) (neighbors self) (peers s) rt2")
  have e3: "e3 = None"
    using ok self d0 e2 r0 by (simp add: update_routing_table_def)
  have res: "routing_table (snd (update_routing_table s)) = rt3"
    using self d0 e2 r0 by (simp add: update_routing_table_def)
  from self d0 e2 r0 e3 res that show ?thesis by simp
qed

lemma update_routing_table_entry:
  assumes ok: "fst (update_routing_table s) = None"
    and k: "k \<in> fst ` set (peers s)" "k \<noteq> server_id s"
  shows "map_of (routing_table (snd (update_routing_table s))) k = Some (entry_of s k)"
proof -
  let ?rt1 = "init_table (server_id s) (peers s) (routing_table s)"
  from ok obtain self rt2 rt3 where
    self: "map_of (peers s) (server_id s) = Some self" and
    d: "direct_loop (peers s) (neighbors self) ?rt1 = (None, rt2)" and
    r: "relay_all (server_id s) (peers s) (neighbors self) (peers s) rt2 = (None, rt3)" and
    res: "routing_table (snd (update_routing_table s)) = rt3"
    by (rule update_routing_table_stages)
  have ln: "local_neighbors s = neighbors self" using self by (simp add: local_neighbors_def)
  have 1: "map_of ?rt1 k = Some []" using k by (simp add: map_of_init_table)
  have 2: "map_of rt2 k =
      (if k \<in> set (neighbors self) \<and> online_in (peers s) k then Some [(k, 1)] else Some [])"
    unfolding map_of_direct_loop [OF d, of k] 1 by simp
  show ?thesis
  proof (cases "k \<in> set (neighbors self)")
    case True
    then have "map_of rt3 k = map_of rt2 k"
      unfolding map_of_relay_all [OF r, of k] by simp
    with True 2 show ?thesis
      unfolding res by (simp add: entry_of_def ln)
  next
    case False
    then have 3: "map_of rt2 k = Some []" using 2 by simp
    have "map_of rt3 k =
       (case first_online (peers s) (neighbors self) of
          None \<Rightarrow> Some []
        | Some b \<Rightarrow> if b \<noteq> [] then Some [(b, 2)] else Some [])"
      unfolding map_of_relay_all [OF r, of k] 3 using False k
      by (simp split: option.splits)
    with False show ?thesis
      unfolding res by (simp add: entry_of_def ln first_online_neighbor_def split: option.splits)
  qed
qed

lemma update_routing_table_keeps_keys:
  assumes ok: "fst (update_routing_table s) = None" and k: "k \<in> fst ` set (routing_table s)"
  shows "k \<in> fst ` set (routing_table (snd (update_routing_table s)))"
proof -
  let ?rt1 = "init_table (server_id s) (peers s) (routing_table s)"
  from ok obtain self rt2 rt3 where
    self: "map_of (peers s) (server_id s) = Some self" and
    d: "direct_loop (peers s) (neighbors self) ?rt1 = (None, rt2)" and
    r: "relay_all (server_id s) (peers s) (neighbors self) (peers s) rt2 = (None, rt3)" and
    res: "routing_table (snd (update_routing_table s)) = rt3"
    by (rule update_routing_table_stages)
  from k have "k \<in> fst ` set ?rt1" by (rule init_table_keeps_keys)
  with d have "k \<in> fst ` set rt2" by (rule direct_loop_keys)
  with r have "k \<in> fst ` set rt3" by (rule relay_all_keys)
  then show ?thesis unfolding res .
qed

text \<open>
  C2, as stated: after a recomputation every destination in the table has a non-empty
  candidate map, and a peer without a viable path has no entry at all. The node on which
  \<open>peer1\<close> has registered has no neighbour; the recomputation completes and leaves the
  entry of \<open>peer1\<close>, which is online, in the table with the empty candidate map.
\<close>

theorem empty_entry_cex:
  "fst (update_routing_table node_reg) = None \<and>
   map_of (routing_table (snd (update_routing_table node_reg))) ''peer1'' = Some [] \<and>
   online_in (peers node_reg) ''peer1''"
  by (simp add: node_reg_def node0_def online_in_def ops_defs Let_def)

text \<open>
  C2, amended: a recomputation completes whenever the node has its own record and its
  neighbours are registered peers other than itself. After a recomputation that completes,
  no destination has left the table, and every registered peer other than the node has an
  entry; that entry is the empty candidate map exactly when the recomputation finds no next
  hop for the peer, that is, for a direct neighbour that is offline and for any other peer
  when the node has no online neighbour (or the first online one has the empty id, which
  counts as none). Otherwise the candidate map is not empty.
\<close>

theorem recomputed_table_entries:
  "(registered_neighbors s \<longrightarrow> fst (update_routing_table s) = None) \<and>
   (fst (update_routing_table s) = None \<longrightarrow>
      (k \<in> fst ` set (routing_table s) \<longrightarrow>
         k \<in> fst ` set (routing_table (snd (update_routing_table s)))) \<and>
      (k \<in> fst ` set (peers s) \<and> k \<noteq> server_id s \<longrightarrow>
         map_of (routing_table (snd (update_routing_table s))) k \<noteq> None \<and>
         (map_of (routing_table (snd (update_routing_table s))) k = Some [] \<longleftrightarrow>
            \<not> has_candidate s k)))"
proof -
  have a: "map_of (routing_table (snd (update_routing_table s))) k \<noteq> None \<and>
         (map_of (routing_table (snd (update_routing_table s))) k = Some [] \<longleftrightarrow>
            \<not> has_candidate s k)"
    if "fst (update_routing_table s) = None" "k \<in> fst ` set (peers s)" "k \<noteq> server_id s"
    unfolding update_routing_table_entry [OF that]
    by (simp add: entry_of_def has_candidate_def split: option.splits)
  from a update_routing_table_ok update_routing_table_keeps_keys show ?thesis by blast
qed

theorem recomputed_table_entries_witness:
  "registered_neighbors mesh3 \<and> fst (update_routing_table mesh3) = None \<and>
   has_candidate mesh3 ''B'' \<and>
   map_of (routing_table (snd (update_routing_table mesh3))) ''B'' \<noteq> Some [] \<and>
   registered_neighbors node_reg \<and> \<not> has_candidate node_reg ''peer1'' \<and>
   map_of (routing_table (snd (update_routing_table node_reg))) ''peer1'' = Some []"
  using recomputed_table_entries [of mesh3 "''B''"] recomputed_table_entries [of node_reg "''peer1''"]
  by (simp add: mesh3_def node_reg_def node0_def registered_neighbors_def has_candidate_def
        local_neighbors_def first_online_neighbor_def first_online_def online_in_def ops_defs Let_def)

text \<open>
  C3, as stated: a cost-2 entry is made only for peers that are online. The node has the
  online neighbour \<open>A\<close>, and \<open>B\<close> is registered, offline and no neighbour; the
  recomputation gives \<open>B\<close> the candidate map with \<open>A\<close> at cost 2.
\<close>

theorem offline_peer_cost2_cex:
  "\<not> online_in (peers mesh3) ''B'' \<and> ''B'' \<notin> set (local_neighbors mesh3) \<and>
   update_routing_table mesh3 =
     (None, mesh3\<lparr>routing_table := [(''A'', [(''A'', 1)]), (''B'', [(''A'', 2)])]\<rparr>)"
  by (simp add: mesh3_def online_in_def local_neighbors_def update_routing_table_def)

text \<open>
  C3, amended: after a recomputation that completes, the candidate map of a registered peer
  other than the node is decided by the neighbours alone. For a peer that is not a direct
  neighbour, online or not, it is exactly the first online neighbour of the node at cost 2,
  and empty when the node has no online neighbour (or the first online one has the empty
  id, which counts as none); for a direct neighbour it is exactly the neighbour itself at
  cost 1 when it is online, and empty when it is not.
\<close>

theorem recomputed_candidates:
  assumes "fst (update_routing_table s) = None" and "k \<in> fst ` set (peers s)" and "k \<noteq> server_id s"
  shows "map_of (routing_table (snd (update_routing_table s))) k =
           Some (if k \<in> set (local_neighbors s) then (if online_in (peers s) k then [(k, 1)] else [])
                 else (case first_online_neighbor s of
                         None \<Rightarrow> []
                       | Some b \<Rightarrow> if b \<noteq> [] then [(b, 2)] else []))"
  using update_routing_table_entry [OF assms] by (simp add: entry_of_def)

theorem recomputed_candidates_witness:
  "fst (update_routing_table mesh3) = None \<and>
   first_online_neighbor mesh3 = Some ''A'' \<and>
   map_of (routing_table (snd (update_routing_table mesh3))) ''B'' = Some [(''A'', 2)] \<and>
   map_of (routing_table (snd (update_routing_table mesh3))) ''A'' = Some [(''A'', 1)]"
  using recomputed_candidates [of mesh3 "''B''"] recomputed_candidates [of mesh3 "''A''"]
  by (simp add: mesh3_def local_neighbors_def first_online_neighbor_def first_online_def
        online_in_def update_routing_table_def)

end
